theory Spec2Isabelle
  imports Complex_Main
begin

section \<open>Data model\<close>

text \<open>
  The program is a Python script over pandas data frames of floating-point numbers.
  Numbers are idealised: a finite float is a real number (no rounding, no overflow), and
  the three special values of IEEE arithmetic that numpy produces without raising
  (division by zero, logarithm of zero or of a negative number) are kept as values of
  their own. Zero carries no sign.
\<close>

datatype fl = Fin real | PInf | NInf | NaN

datatype error = KeyError | ZeroDivisionError | ValueError

text \<open>
  A data frame is the ordered list of its named columns; a Series (the result of a
  column-wise sum) is an ordered list of labelled values.
\<close>

type_synonym column = "string \<times> real list"
type_synonym dataframe = "column list"
type_synonym series = "(string \<times> fl) list"

text \<open>\<open>len(df)\<close>: the number of rows.\<close>

definition df_len :: "dataframe \<Rightarrow> nat" where
  "df_len df = (case df of [] \<Rightarrow> 0 | c # _ \<Rightarrow> length (snd c))"

text \<open>
  pandas keeps every column of a frame at the same length, and \<open>read_csv\<close> makes the
  column names unique.
\<close>

definition wf_df :: "dataframe \<Rightarrow> bool" where
  "wf_df df \<longleftrightarrow> distinct (map fst df) \<and> list_all (\<lambda>c. length (snd c) = df_len df) df"

text \<open>Python slicing \<open>xs[a:b]\<close> for non-negative bounds, and \<open>df[a:b]\<close> on rows.\<close>

definition slice :: "nat \<Rightarrow> nat \<Rightarrow> 'a list \<Rightarrow> 'a list" where
  "slice a b xs = take (b - a) (drop a xs)"

definition df_slice :: "nat \<Rightarrow> nat \<Rightarrow> dataframe \<Rightarrow> dataframe" where
  "df_slice a b df = map (\<lambda>c. (fst c, slice a b (snd c))) df"

text \<open>The rows of a frame in order, as \<open>iterrows\<close> yields them: labelled cells.\<close>

definition row_at :: "dataframe \<Rightarrow> nat \<Rightarrow> (string \<times> real) list" where
  "row_at df i = map (\<lambda>c. (fst c, snd c ! i)) df"

definition iterrows :: "dataframe \<Rightarrow> (string \<times> real) list list" where
  "iterrows df = map (row_at df) [0..<df_len df]"

section \<open>Cross-validation folds\<close>

text \<open>
  The loop \<open>for i in range(5)\<close> of the driver, with its two variables \<open>starting_i\<close>
  and \<open>folds\<close>; the first argument counts the iterations that remain.
\<close>

fun folds_loop :: "nat \<Rightarrow> nat \<Rightarrow> nat \<Rightarrow> dataframe \<Rightarrow> dataframe list" where
  "folds_loop 0 starting_i fold_size training_data = []"
| "folds_loop (Suc k) starting_i fold_size training_data =
     (let ending_i = min (starting_i + fold_size) (df_len training_data);
          fold = df_slice starting_i ending_i training_data
      in fold # folds_loop k ending_i fold_size training_data)"

definition folds :: "dataframe \<Rightarrow> dataframe list" where
  "folds training_data =
     (let fold_size = df_len training_data div 5
      in folds_loop 5 0 fold_size training_data)"

section \<open>Arithmetic on floats\<close>

text \<open>
  numpy arithmetic never raises: it returns an infinity or NaN. \<open>fdiv\<close> is the division
  of two finite numbers, \<open>flog\<close> is \<open>np.log\<close>, \<open>fgt\<close> is the comparison \<open>x > y\<close> (false as soon as
  one side is NaN).
\<close>

definition fdiv :: "real \<Rightarrow> real \<Rightarrow> fl" where
  "fdiv x y =
     (if y \<noteq> 0 then Fin (x / y)
      else if x > 0 then PInf
      else if x < 0 then NInf
      else NaN)"

fun flog :: "fl \<Rightarrow> fl" where
  "flog (Fin x) = (if x > 0 then Fin (ln x) else if x = 0 then NInf else NaN)"
| "flog PInf = PInf"
| "flog NInf = NaN"
| "flog NaN = NaN"

fun fadd :: "fl \<Rightarrow> fl \<Rightarrow> fl" where
  "fadd (Fin a) (Fin b) = Fin (a + b)"
| "fadd NaN _ = NaN"
| "fadd _ NaN = NaN"
| "fadd PInf NInf = NaN"
| "fadd NInf PInf = NaN"
| "fadd PInf _ = PInf"
| "fadd _ PInf = PInf"
| "fadd NInf _ = NInf"
| "fadd _ NInf = NInf"

fun fmul :: "fl \<Rightarrow> fl \<Rightarrow> fl" where
  "fmul (Fin a) (Fin b) = Fin (a * b)"
| "fmul NaN _ = NaN"
| "fmul _ NaN = NaN"
| "fmul (Fin a) PInf = (if a > 0 then PInf else if a < 0 then NInf else NaN)"
| "fmul (Fin a) NInf = (if a > 0 then NInf else if a < 0 then PInf else NaN)"
| "fmul PInf (Fin b) = (if b > 0 then PInf else if b < 0 then NInf else NaN)"
| "fmul NInf (Fin b) = (if b > 0 then NInf else if b < 0 then PInf else NaN)"
| "fmul PInf PInf = PInf"
| "fmul PInf NInf = NInf"
| "fmul NInf PInf = NInf"
| "fmul NInf NInf = PInf"

fun fgt :: "fl \<Rightarrow> fl \<Rightarrow> bool" where
  "fgt (Fin a) (Fin b) = (a > b)"
| "fgt NaN _ = False"
| "fgt _ NaN = False"
| "fgt PInf PInf = False"
| "fgt PInf _ = True"
| "fgt _ PInf = False"
| "fgt NInf _ = False"
| "fgt _ NInf = True"

fun fabs :: "fl \<Rightarrow> fl" where
  "fabs (Fin x) = Fin \<bar>x\<bar>"
| "fabs PInf = PInf"
| "fabs NInf = PInf"
| "fabs NaN = NaN"

section \<open>Training\<close>

text \<open>\<open>df[name]\<close>: the column of that name, or \<open>KeyError\<close>.\<close>

definition get_column :: "dataframe \<Rightarrow> string \<Rightarrow> error + real list" where
  "get_column df name = (case map_of df name of None \<Rightarrow> Inl KeyError | Some vs \<Rightarrow> Inr vs)"

text \<open>\<open>df[mask]\<close>: the rows at which the boolean mask holds.\<close>

definition select_rows :: "bool list \<Rightarrow> dataframe \<Rightarrow> dataframe" where
  "select_rows keep df = map (\<lambda>c. (fst c, map snd (filter fst (zip keep (snd c))))) df"

text \<open>\<open>df[names]\<close> for a list of names that are columns of \<open>df\<close>.\<close>

definition select_columns :: "string list \<Rightarrow> dataframe \<Rightarrow> dataframe" where
  "select_columns names df = concat (map (\<lambda>n. filter (\<lambda>c. fst c = n) df) names)"

text \<open>\<open>df.sum()\<close>: the sum of every column, labelled with the column's name.\<close>

definition column_sums :: "dataframe \<Rightarrow> (string \<times> real) list" where
  "column_sums df = map (\<lambda>c. (fst c, sum_list (snd c))) df"

text \<open>
  The trained model is the tuple \<open>train\<close> returns: the two priors and the two Series of
  conditional probabilities.
\<close>

type_synonym model = "fl \<times> fl \<times> series \<times> series"

definition train :: "dataframe \<Rightarrow> real \<Rightarrow> error + model" where
  "train train_data laplace_alpha =
     (case get_column train_data ''spam'' of
        Inl e \<Rightarrow> Inl e
      | Inr labels \<Rightarrow>
          let spam = select_rows (map (\<lambda>v. v = 1) labels) train_data;
              non_spam = select_rows (map (\<lambda>v. v = 0) labels) train_data
          in if df_len train_data = 0 then Inl ZeroDivisionError
             else
               let prior_spam = real (df_len spam) / real (df_len train_data);
                   prior_non_spam = real (df_len non_spam) / real (df_len train_data);
                   features = butlast (map fst train_data);
                   spam_word_sum = column_sums (select_columns features spam);
                   non_spam_word_sum = column_sums (select_columns features non_spam);
                   total_spam_word_sum = sum_list (map snd spam_word_sum);
                   total_non_spam_word_sum = sum_list (map snd non_spam_word_sum);
                   words_spam_prob =
                     map (\<lambda>(w, s). (w, fdiv (s + laplace_alpha)
                        (total_spam_word_sum + laplace_alpha * real (length features))))
                       spam_word_sum;
                   words_non_spam_prob =
                     map (\<lambda>(w, s). (w, fdiv (s + laplace_alpha)
                        (total_non_spam_word_sum + laplace_alpha * real (length features))))
                       non_spam_word_sum
               in Inr (Fin prior_spam, Fin prior_non_spam, words_spam_prob, words_non_spam_prob))"

section \<open>Prediction\<close>

text \<open>
  The loop over \<open>email.items()\<close>, with its two accumulators. \<open>word in series\<close> asks
  whether the word is a label of the Series.
\<close>

fun predict_loop :: "(string \<times> real) list \<Rightarrow> series \<Rightarrow> series \<Rightarrow> fl \<times> fl \<Rightarrow> fl \<times> fl" where
  "predict_loop [] words_spam_prob words_non_spam_prob (spam_prob, non_spam_prob) =
     (spam_prob, non_spam_prob)"
| "predict_loop ((word, freq) # rest) words_spam_prob words_non_spam_prob (spam_prob, non_spam_prob) =
     (let spam_prob' =
            (case map_of words_spam_prob word of
               Some p \<Rightarrow> fadd spam_prob (fmul (Fin freq) (flog p))
             | None \<Rightarrow> spam_prob);
          non_spam_prob' =
            (case map_of words_non_spam_prob word of
               Some p \<Rightarrow> fadd non_spam_prob (fmul (Fin freq) (flog p))
             | None \<Rightarrow> non_spam_prob)
      in predict_loop rest words_spam_prob words_non_spam_prob (spam_prob', non_spam_prob'))"

definition predict :: "(string \<times> real) list \<Rightarrow> fl \<Rightarrow> fl \<Rightarrow> series \<Rightarrow> series \<Rightarrow> bool" where
  "predict email prior_spam prior_non_spam words_spam_prob words_non_spam_prob =
     (case predict_loop email words_spam_prob words_non_spam_prob
             (flog prior_spam, flog prior_non_spam) of
        (spam_prob, non_spam_prob) \<Rightarrow> fgt spam_prob non_spam_prob)"

section \<open>Evaluation\<close>

text \<open>\<open>row.drop('spam').to_dict()\<close> and \<open>row['spam']\<close>; both raise when there is no such label.\<close>

definition drop_label :: "(string \<times> real) list \<Rightarrow> error + (string \<times> real) list" where
  "drop_label row =
     (if ''spam'' \<in> set (map fst row) then Inr (filter (\<lambda>kv. fst kv \<noteq> ''spam'') row)
      else Inl KeyError)"

definition get_label :: "(string \<times> real) list \<Rightarrow> error + real" where
  "get_label row = (case map_of row ''spam'' of None \<Rightarrow> Inl KeyError | Some v \<Rightarrow> Inr v)"

text \<open>
  The counters and lists of \<open>test\<close>, and one iteration of its loop. A boolean prediction
  equals a numeric label when the label is 1 (for \<open>True\<close>) or 0 (for \<open>False\<close>).
\<close>

record counters =
  correct :: nat
  false_positive :: nat
  true_positive :: nat
  predictions :: "bool list"
  spam_labels :: "real list"

definition test_step :: "fl \<Rightarrow> fl \<Rightarrow> series \<Rightarrow> series \<Rightarrow> (string \<times> real) list \<Rightarrow> counters \<Rightarrow> error + counters" where
  "test_step prior_spam prior_non_spam words_spam_prob words_non_spam_prob row st =
     (case drop_label row of
        Inl e \<Rightarrow> Inl e
      | Inr email \<Rightarrow>
          let prediction = predict email prior_spam prior_non_spam words_spam_prob words_non_spam_prob;
              st = st\<lparr>predictions := predictions st @ [prediction]\<rparr>
          in (case get_label row of
                Inl e \<Rightarrow> Inl e
              | Inr spam_label \<Rightarrow>
                  let st = st\<lparr>spam_labels := spam_labels st @ [spam_label]\<rparr>
                  in if (if prediction then spam_label = 1 else spam_label = 0)
                     then
                       (let st = st\<lparr>correct := correct st + 1\<rparr>
                        in if prediction then Inr (st\<lparr>true_positive := true_positive st + 1\<rparr>)
                           else Inr st)
                     else
                       (if prediction then Inr (st\<lparr>false_positive := false_positive st + 1\<rparr>)
                        else Inr st)))"

fun test_loop :: "fl \<Rightarrow> fl \<Rightarrow> series \<Rightarrow> series \<Rightarrow> (string \<times> real) list list \<Rightarrow> counters \<Rightarrow> error + counters" where
  "test_loop ps pn ws wn [] st = Inr st"
| "test_loop ps pn ws wn (row # rows) st =
     (case test_step ps pn ws wn row st of
        Inl e \<Rightarrow> Inl e
      | Inr st' \<Rightarrow> test_loop ps pn ws wn rows st')"

text \<open>
  \<open>roc_auc_score\<close> belongs to scikit-learn, not to this program: it is a parameter of
  the model, and may raise (as it does when only one class is among the labels).
\<close>

type_synonym auc_fn = "real list \<Rightarrow> bool list \<Rightarrow> error + fl"

definition test :: "auc_fn \<Rightarrow> dataframe \<Rightarrow> fl \<Rightarrow> fl \<Rightarrow> series \<Rightarrow> series \<Rightarrow> error + (real \<times> real \<times> real \<times> fl)" where
  "test roc_auc_score test_data prior_spam prior_non_spam words_spam_prob words_non_spam_prob =
     (let total = df_len test_data
      in case test_loop prior_spam prior_non_spam words_spam_prob words_non_spam_prob
                (iterrows test_data)
                \<lparr>correct = 0, false_positive = 0, true_positive = 0,
                 predictions = [], spam_labels = []\<rparr> of
           Inl e \<Rightarrow> Inl e
         | Inr st \<Rightarrow>
             (case roc_auc_score (spam_labels st) (predictions st) of
                Inl e \<Rightarrow> Inl e
              | Inr auc \<Rightarrow>
                  if total = 0 then Inl ZeroDivisionError
                  else Inr (real (correct st) / real total,
                            real (false_positive st) / real total,
                            real (true_positive st) / real total,
                            auc)))"

section \<open>Correlation filter\<close>

text \<open>
  \<open>data.corr()\<close> is the matrix of Pearson correlations of the columns, pair by pair; an
  entry is NaN when its divisor is zero (a column of zero variance, or fewer than two
  rows). The entry at \<open>i, j\<close> depends on columns \<open>i\<close> and \<open>j\<close> only.
\<close>

definition mean :: "real list \<Rightarrow> real" where
  "mean xs = sum_list xs / real (length xs)"

definition pearson :: "real list \<Rightarrow> real list \<Rightarrow> fl" where
  "pearson xs ys =
     (let dx = map (\<lambda>x. x - mean xs) xs;
          dy = map (\<lambda>y. y - mean ys) ys;
          covxy = sum_list (map (\<lambda>(a, b). a * b) (zip dx dy));
          divisor = sqrt (sum_list (map (\<lambda>a. a * a) dx) * sum_list (map (\<lambda>b. b * b) dy))
      in if divisor \<noteq> 0 then Fin (covxy / divisor) else NaN)"

definition matrix :: "dataframe \<Rightarrow> nat \<Rightarrow> nat \<Rightarrow> fl" where
  "matrix data i j = fabs (pearson (snd (data ! i)) (snd (data ! j)))"

text \<open>The two nested loops that collect the names to drop.\<close>

definition correlated_features :: "dataframe \<Rightarrow> real \<Rightarrow> string set" where
  "correlated_features data threshold =
     fold (\<lambda>i acc.
        fold (\<lambda>j acc.
           if fgt (matrix data i j) (Fin threshold) then insert (fst (data ! i)) acc else acc)
          [0..<i] acc)
       [0..<length data] {}"

definition remove_correlated :: "dataframe \<Rightarrow> real \<Rightarrow> dataframe" where
  "remove_correlated data threshold =
     filter (\<lambda>c. fst c \<notin> correlated_features data threshold) data"

section \<open>The driver\<close>

text \<open>
  The second loop of the script: for each fold, train on it and evaluate against the test
  set, then print the four numbers. An exception ends the script: what was printed before
  stays printed, and no later fold is run.
\<close>

type_synonym report = "real \<times> real \<times> real \<times> fl"

fun run_folds :: "auc_fn \<Rightarrow> real \<Rightarrow> dataframe \<Rightarrow> dataframe list \<Rightarrow> report list \<times> error option" where
  "run_folds roc_auc_score laplace_alpha testing_data [] = ([], None)"
| "run_folds roc_auc_score laplace_alpha testing_data (fold_i # rest) =
     (case train fold_i laplace_alpha of
        Inl e \<Rightarrow> ([], Some e)
      | Inr (prior_spam, prior_non_spam, word_given_spam_probs, word_given_non_spam_probs) \<Rightarrow>
          (case test roc_auc_score testing_data prior_spam prior_non_spam
                  word_given_spam_probs word_given_non_spam_probs of
             Inl e \<Rightarrow> ([], Some e)
           | Inr r \<Rightarrow>
               (case run_folds roc_auc_score laplace_alpha testing_data rest of
                  (rs, err) \<Rightarrow> (r # rs, err))))"

definition driver :: "auc_fn \<Rightarrow> real \<Rightarrow> dataframe \<Rightarrow> dataframe \<Rightarrow> report list \<times> error option" where
  "driver roc_auc_score laplace_alpha training_data testing_data =
     run_folds roc_auc_score laplace_alpha testing_data (folds training_data)"

section \<open>Vocabulary of the specification\<close>


definition value_of :: "(string \<times> real) list \<Rightarrow> string \<Rightarrow> real" where
  "value_of row f = (case map_of row f of Some v \<Rightarrow> v | None \<Rightarrow> 0)"




text \<open>
  What the code computes for one column: the values of \<open>vs\<close> at the rows whose label
  is \<open>l\<close>, and the entry of the Series of conditional probabilities for a column.
\<close>

definition masked :: "real \<Rightarrow> real list \<Rightarrow> real list \<Rightarrow> real list" where
  "masked l labels vs = map snd (filter fst (zip (map (\<lambda>v. v = l) labels) vs))"

definition col_prob :: "real \<Rightarrow> real list \<Rightarrow> dataframe \<Rightarrow> real \<Rightarrow> column \<Rightarrow> string \<times> fl" where
  "col_prob l labels feats \<alpha> c =
     (fst c, fdiv (sum_list (masked l labels (snd c)) + \<alpha>)
        (sum_list (map (\<lambda>d. sum_list (masked l labels (snd d))) feats) + \<alpha> * real (length feats)))"






text \<open>A small fold used to instantiate the theorems: two features, one spam row, one non-spam row.\<close>

definition toy_fold :: dataframe where
  "toy_fold = [(''a'', [1, 0]), (''b'', [3, 2]), (''spam'', [1, 0])]"

text \<open>
  The score of the specification for one class: the logarithm of the prior plus the sum,
  over the entries of the row whose word is a label of the class's Series, of the value
  times the logarithm of the conditional probability. \<open>score\<close> is that sum in float
  arithmetic, \<open>log_score\<close> the same sum over the reals.
\<close>

definition contributions :: "(string \<times> real) list \<Rightarrow> series \<Rightarrow> fl list" where
  "contributions email probs =
     List.map_filter
       (\<lambda>(word, freq). map_option (\<lambda>p. fmul (Fin freq) (flog p)) (map_of probs word)) email"

definition fsum :: "fl list \<Rightarrow> fl" where
  "fsum xs = foldr fadd xs (Fin 0)"

definition score :: "(string \<times> real) list \<Rightarrow> fl \<Rightarrow> series \<Rightarrow> fl" where
  "score email prior probs = fadd (flog prior) (fsum (contributions email probs))"

definition log_score :: "(string \<times> real) list \<Rightarrow> real \<Rightarrow> (string \<times> real) list \<Rightarrow> real" where
  "log_score email prior probs =
     ln prior
     + sum_list (List.map_filter
         (\<lambda>(word, freq). map_option (\<lambda>p. freq * ln p) (map_of probs word)) email)"

definition as_series :: "(string \<times> real) list \<Rightarrow> series" where
  "as_series probs = map (\<lambda>(word, p). (word, Fin p)) probs"

text \<open>
  The evaluator in the words of the specification: the label of a row, the prediction for
  a row (on its cells other than the label), and a boolean prediction read as the label
  1 or 0.
\<close>

definition label_of :: "(string \<times> real) list \<Rightarrow> real" where
  "label_of row = value_of row ''spam''"

definition prediction_of :: "fl \<Rightarrow> fl \<Rightarrow> series \<Rightarrow> series \<Rightarrow> (string \<times> real) list \<Rightarrow> bool" where
  "prediction_of ps pn ws wn row = predict (filter (\<lambda>kv. fst kv \<noteq> ''spam'') row) ps pn ws wn"

definition as_label :: "bool \<Rightarrow> real" where
  "as_label b = (if b then 1 else 0)"

definition has_label :: "(string \<times> real) list \<Rightarrow> bool" where
  "has_label row \<longleftrightarrow> ''spam'' \<in> set (map fst row)"

definition binary_label :: "(string \<times> real) list \<Rightarrow> bool" where
  "binary_label row \<longleftrightarrow> label_of row = 0 \<or> label_of row = 1"

text \<open>A small test set and a small model used to instantiate the theorems.\<close>

definition toy_test :: dataframe where
  "toy_test = [(''a'', [2, 0, 1]), (''spam'', [1, 0, 0])]"

definition toy_auc :: auc_fn where
  "toy_auc labels preds = Inr (Fin (3 / 4))"

text \<open>
  The correlation filter in the words of the specification: the absolute correlation of
  two columns exceeds the threshold; a column is marked when it exceeds the threshold
  with a column of lower index; a column of zero variance.
\<close>

definition exceeds :: "real \<Rightarrow> column \<Rightarrow> column \<Rightarrow> bool" where
  "exceeds t c d = fgt (fabs (pearson (snd c) (snd d))) (Fin t)"

definition marked :: "dataframe \<Rightarrow> real \<Rightarrow> nat \<Rightarrow> bool" where
  "marked data t i = list_ex (\<lambda>j. exceeds t (data ! i) (data ! j)) [0..<i]"


text \<open>
  A table whose label is perfectly correlated with its only feature, a table with two
  identical constant features, and a table with two identical features of non-zero
  variance beside a constant one.
\<close>

definition leaky_data :: dataframe where
  "leaky_data = [(''a'', [0, 2]), (''spam'', [0, 1])]"



text \<open>
  Folds used to instantiate the theorems on the driver: a fold with no row, a fold
  with spam rows only, and a training set of five spam rows.
\<close>

definition empty_fold :: dataframe where
  "empty_fold = [(''a'', []), (''spam'', [])]"

definition spam_only :: dataframe where
  "spam_only = [(''a'', [1, 2]), (''spam'', [1, 1])]"

definition five_spam :: dataframe where
  "five_spam = [(''a'', [1, 2, 3, 4, 5]), (''spam'', [1, 1, 1, 1, 1])]"

section \<open>Properties of the folds\<close>

lemma slice_map_upt:
  "b \<le> n \<Longrightarrow> slice a b (map f [0..<n]) = map f [a..<b]"
proof (cases "a \<le> b")
  case True
  assume "b \<le> n"
  with True have "take (b - a) [a..<n] = [a..<a + (b - a)]"
    by (intro take_upt) simp
  with True show ?thesis by (simp add: slice_def take_map drop_map)
next
  case False
  then show ?thesis by (simp add: slice_def)
qed

lemma wf_df_lengthD: "wf_df df \<Longrightarrow> c \<in> set df \<Longrightarrow> length (snd c) = df_len df"
  by (simp add: wf_df_def list_all_iff)

lemma df_len_slice:
  assumes "wf_df df" "b \<le> df_len df"
  shows "df_len (df_slice a b df) = b - a"
proof (cases df)
  case Nil
  with assms show ?thesis by (simp add: df_len_def df_slice_def)
next
  case (Cons c cs)
  then have n: "df_len df = length (snd c)" by (simp add: df_len_def)
  from Cons have "df_len (df_slice a b df) = length (slice a b (snd c))"
    by (simp add: df_len_def df_slice_def)
  also have "\<dots> = b - a"
    using assms(2) by (simp add: slice_def n)
  finally show ?thesis .
qed

lemma row_at_slice:
  assumes "wf_df df" "b \<le> df_len df" "i < b - a"
  shows "row_at (df_slice a b df) i = row_at df (a + i)"
proof -
  have "slice a b (snd c) ! i = snd c ! (a + i)" if "c \<in> set df" for c
  proof -
    from that assms have "length (snd c) = df_len df" by (simp add: wf_df_lengthD)
    with assms show ?thesis by (simp add: slice_def)
  qed
  then show ?thesis by (simp add: row_at_def df_slice_def)
qed

lemma iterrows_slice:
  assumes "wf_df df" "b \<le> df_len df"
  shows "iterrows (df_slice a b df) = slice a b (iterrows df)"
proof -
  have "iterrows (df_slice a b df) = map (row_at (df_slice a b df)) [0..<b - a]"
    using assms by (simp add: iterrows_def df_len_slice)
  also have "\<dots> = map (\<lambda>i. row_at df (a + i)) [0..<b - a]"
    using assms by (simp add: row_at_slice)
  also have "\<dots> = map (row_at df) [a..<b]"
  proof (cases "a \<le> b")
    case True
    have "[a..<b] = map (\<lambda>i. i + a) [0..<b - a]"
      using True map_add_upt [of a "b - a"] by simp
    then show ?thesis by (simp add: comp_def add.commute)
  next
    case False
    then show ?thesis by simp
  qed
  also have "\<dots> = slice a b (iterrows df)"
    using assms by (simp add: iterrows_def slice_map_upt)
  finally show ?thesis .
qed

lemma folds_loop_sizes:
  assumes "wf_df td"
  shows "s + k * fs \<le> df_len td \<Longrightarrow> map df_len (folds_loop k s fs td) = replicate k fs"
proof (induction k arbitrary: s)
  case 0
  show ?case by simp
next
  case (Suc k)
  from Suc.prems have le: "s + fs \<le> df_len td" and rest: "(s + fs) + k * fs \<le> df_len td"
    by simp_all
  from le have m: "min (s + fs) (df_len td) = s + fs" by simp
  show ?case
    using Suc.IH [OF rest] assms le by (simp add: m Let_def df_len_slice)
qed

lemma slice_append_slice:
  "a \<le> b \<Longrightarrow> b \<le> c \<Longrightarrow> slice a b xs @ slice b c xs = slice a c xs"
proof -
  assume ab: "a \<le> b" and bc: "b \<le> c"
  have "take (c - a) (drop a xs) = take (b - a) (drop a xs) @ take (c - b) (drop (b - a) (drop a xs))"
    using ab bc take_add [of "b - a" "c - b" "drop a xs"] by simp
  with ab show ?thesis by (simp add: slice_def)
qed

lemma folds_loop_rows:
  assumes "wf_df td"
  shows "s + k * fs \<le> df_len td \<Longrightarrow>
    concat (map iterrows (folds_loop k s fs td)) = slice s (s + k * fs) (iterrows td)"
proof (induction k arbitrary: s)
  case 0
  show ?case by (simp add: slice_def)
next
  case (Suc k)
  from Suc.prems have le: "s + fs \<le> df_len td" and rest: "(s + fs) + k * fs \<le> df_len td"
    by simp_all
  from le have m: "min (s + fs) (df_len td) = s + fs" by simp
  have "concat (map iterrows (folds_loop (Suc k) s fs td)) =
        slice s (s + fs) (iterrows td) @ slice (s + fs) ((s + fs) + k * fs) (iterrows td)"
    using Suc.IH [OF rest] assms le by (simp add: m Let_def iterrows_slice)
  also have "\<dots> = slice s (s + Suc k * fs) (iterrows td)"
    by (simp add: slice_append_slice add.assoc)
  finally show ?case .
qed

text \<open>
  Claim C1, as the driver computes it: for every training set of \<open>n\<close> rows the loop
  produces five contiguous folds of exactly \<open>n div 5\<close> rows each. The last fold does
  not take the remainder: the fold sizes sum to \<open>n - n mod 5\<close>, and the rows of the
  folds, concatenated in order, are the first \<open>5 * (n div 5)\<close> rows of the training set.
\<close>

theorem folds_partition_prefix:
  assumes "wf_df training_data"
  shows "map df_len (folds training_data) = replicate 5 (df_len training_data div 5)
    \<and> sum_list (map df_len (folds training_data)) = df_len training_data - df_len training_data mod 5
    \<and> concat (map iterrows (folds training_data))
        = take (5 * (df_len training_data div 5)) (iterrows training_data)"
proof -
  let ?n = "df_len training_data"
  have le: "0 + 5 * (?n div 5) \<le> ?n" by simp
  have sizes: "map df_len (folds training_data) = replicate 5 (?n div 5)"
    using folds_loop_sizes [OF assms le] by (simp add: folds_def)
  have "sum_list (replicate 5 (?n div 5)) = 5 * (?n div 5)"
    by (simp add: sum_list_replicate)
  also have "\<dots> = ?n - ?n mod 5"
    by (simp add: minus_mod_eq_mult_div)
  finally have total: "sum_list (map df_len (folds training_data)) = ?n - ?n mod 5"
    by (simp only: sizes)
  have rows: "concat (map iterrows (folds training_data)) = take (5 * (?n div 5)) (iterrows training_data)"
    using folds_loop_rows [OF assms le] by (simp add: folds_def slice_def)
  from sizes total rows show ?thesis by blast
qed

theorem folds_partition_prefix_witness:
  "wf_df [(''w'', [1, 2, 3, 4, 5, 6]), (''spam'', [0, 1, 0, 1, 0, 1])]
   \<and> map df_len (folds [(''w'', [1, 2, 3, 4, 5, 6]), (''spam'', [0, 1, 0, 1, 0, 1])]) = [1, 1, 1, 1, 1]
   \<and> concat (map iterrows (folds [(''w'', [1, 2, 3, 4, 5, 6]), (''spam'', [0, 1, 0, 1, 0, 1])]))
      = [[(''w'', 1), (''spam'', 0)], [(''w'', 2), (''spam'', 1)], [(''w'', 3), (''spam'', 0)],
         [(''w'', 4), (''spam'', 1)], [(''w'', 5), (''spam'', 0)]]"
proof -
  have wf: "wf_df [(''w'', [1, 2, 3, 4, 5, 6]), (''spam'', [0, 1, 0, 1, 0, 1])]"
    by (simp add: wf_df_def df_len_def)
  have n: "df_len [(''w'', [1, 2, 3, 4, 5, 6]), (''spam'', [0, 1, 0, 1, 0, 1])] = 6"
    by (simp add: df_len_def)
  have r: "replicate 5 (Suc 0) = [1, 1, 1, 1, 1]" by code_simp
  have u: "[0..<6] = [0, 1, 2, 3, 4, 5]" by code_simp
  have t: "take 5 [0, 1, 2, 3, 4, 5::nat] = [0, 1, 2, 3, 4]" by code_simp
  show ?thesis
    using folds_partition_prefix [OF wf] wf
    by (simp add: n r u t iterrows_def row_at_def take_map)
qed

text \<open>
  A training set of 23 rows: the folds have sizes \<open>[4, 4, 4, 4, 4]\<close>, not
  \<open>[4, 4, 4, 4, 7]\<close>, and three rows are in no fold.
\<close>

theorem folds_remainder_counterexample:
  "df_len [(''spam'', replicate 23 0)] = 23
   \<and> map df_len (folds [(''spam'', replicate 23 0)]) = [4, 4, 4, 4, 4]
   \<and> map df_len (folds [(''spam'', replicate 23 0)]) \<noteq> [4, 4, 4, 4, 7]
   \<and> sum_list (map df_len (folds [(''spam'', replicate 23 0)])) \<noteq> 23"
  by code_simp

section \<open>Properties of training\<close>

lemma map_fst_select_rows: "map fst (select_rows keep df) = map fst df"
  by (simp add: select_rows_def comp_def)

lemma filter_key_distinct:
  "distinct (map f xs) \<Longrightarrow> x \<in> set xs \<Longrightarrow> filter (\<lambda>y. f y = f x) xs = [x]"
proof (induction xs)
  case Nil
  then show ?case by simp
next
  case (Cons a xs)
  show ?case
  proof (cases "a = x")
    case True
    from Cons.prems(1) have "f a \<notin> f ` set xs" by simp
    then have "\<forall>y\<in>set xs. f y \<noteq> f x" using True by (metis imageI)
    then have "filter (\<lambda>y. f y = f x) xs = []" by (simp add: filter_empty_conv)
    with True show ?thesis by simp
  next
    case False
    with Cons.prems have "x \<in> set xs" by simp
    moreover from Cons.prems(1) have "f a \<notin> f ` set xs" by simp
    ultimately have "f a \<noteq> f x" by (metis imageI)
    moreover have "filter (\<lambda>y. f y = f x) xs = [x]"
      using Cons.IH Cons.prems(1) \<open>x \<in> set xs\<close> by simp
    ultimately show ?thesis by simp
  qed
qed

lemma select_columns_own:
  assumes "distinct (map fst df)"
  shows "set xs \<subseteq> set df \<Longrightarrow> select_columns (map fst xs) df = xs"
proof (induction xs)
  case Nil
  show ?case by (simp add: select_columns_def)
next
  case (Cons x xs)
  then have "x \<in> set df" and sub: "set xs \<subseteq> set df" by simp_all
  then have "filter (\<lambda>c. fst c = fst x) df = [x]"
    using filter_key_distinct [OF assms] by blast
  moreover have "select_columns (map fst xs) df = xs" using Cons.IH sub by simp
  ultimately show ?case by (simp add: select_columns_def)
qed

lemma select_features:
  assumes "distinct (map fst df)"
  shows "select_columns (butlast (map fst df)) (select_rows keep df) = select_rows keep (butlast df)"
proof -
  let ?s = "select_rows keep df"
  have d: "distinct (map fst ?s)" using assms by (simp add: map_fst_select_rows)
  have "butlast (map fst df) = map fst (butlast ?s)"
    by (simp add: map_butlast map_fst_select_rows)
  moreover have "set (butlast ?s) \<subseteq> set ?s" by (auto dest: in_set_butlastD)
  ultimately have "select_columns (butlast (map fst df)) ?s = butlast ?s"
    using select_columns_own [OF d] by simp
  then show ?thesis by (simp add: select_rows_def map_butlast)
qed

lemma column_sums_select_rows:
  "column_sums (select_rows (map (\<lambda>v. v = l) labels) df)
     = map (\<lambda>c. (fst c, sum_list (masked l labels (snd c)))) df"
  by (simp add: column_sums_def select_rows_def masked_def comp_def)

lemma length_filter_zip:
  "length ms = length vs \<Longrightarrow> length (filter fst (zip ms vs)) = length (filter (\<lambda>b. b) ms)"
  by (induction ms vs rule: list_induct2) simp_all

lemma get_column_Some:
  "map_of df name = Some vs \<Longrightarrow> get_column df name = Inr vs"
  by (simp add: get_column_def)

lemma wf_df_column_length:
  assumes "wf_df df" "map_of df name = Some vs"
  shows "length vs = df_len df"
proof -
  from assms(2) have "(name, vs) \<in> set df" by (rule map_of_SomeD)
  with assms(1) show ?thesis using wf_df_lengthD by fastforce
qed

lemma df_len_select_rows:
  assumes "wf_df df" "df \<noteq> []" "length labels = df_len df"
  shows "df_len (select_rows (map (\<lambda>v. v = l) labels) df) = length (filter (\<lambda>v. v = l) labels)"
proof -
  from assms(2) obtain c cs where df: "df = c # cs" by (cases df) auto
  then have n: "df_len df = length (snd c)" by (simp add: df_len_def)
  have "df_len (select_rows (map (\<lambda>v. v = l) labels) df)
        = length (filter fst (zip (map (\<lambda>v. v = l) labels) (snd c)))"
    by (simp add: df df_len_def select_rows_def)
  also have "\<dots> = length (filter (\<lambda>b. b) (map (\<lambda>v. v = l) labels))"
    using assms(3) n by (intro length_filter_zip) simp
  also have "\<dots> = length (filter (\<lambda>v. v = l) labels)"
    by (simp add: filter_map comp_def)
  finally show ?thesis .
qed

lemma train_columns:
  assumes wf: "wf_df df" and lab: "map_of df ''spam'' = Some labels" and n: "df_len df \<noteq> 0"
  shows "train df \<alpha> =
    Inr (Fin (real (length (filter (\<lambda>v. v = 1) labels)) / real (df_len df)),
         Fin (real (length (filter (\<lambda>v. v = 0) labels)) / real (df_len df)),
         map (col_prob 1 labels (butlast df) \<alpha>) (butlast df),
         map (col_prob 0 labels (butlast df) \<alpha>) (butlast df))"
proof -
  from lab have ne: "df \<noteq> []" by auto
  from wf have d: "distinct (map fst df)" by (simp add: wf_df_def)
  have len: "length labels = df_len df" using wf lab by (rule wf_df_column_length)
  have sums: "column_sums (select_columns (butlast (map fst df)) (select_rows (map (\<lambda>v. v = l) labels) df))
      = map (\<lambda>c. (fst c, sum_list (masked l labels (snd c)))) (butlast df)" for l
    unfolding select_features [OF d] by (rule column_sums_select_rows)
  show ?thesis
    unfolding train_def get_column_Some [OF lab] sum.case Let_def sums
      df_len_select_rows [OF wf ne len]
    using n by (simp add: comp_def col_prob_def case_prod_beta)
qed















section \<open>The smoothed ratio\<close>







lemma label_column:
  assumes "wf_df df" "df \<noteq> [] \<and> fst (last df) = ''spam''"
  shows "map_of df ''spam'' = Some (snd (last df))"
proof -
  from assms(1) have d: "distinct (map fst df)" by (simp add: wf_df_def)
  from assms(2) have "last df \<in> set df" by simp
  with d assms(2) show ?thesis by (metis map_of_is_SomeI prod.collapse)
qed













section \<open>Properties of prediction\<close>

lemma fadd_assoc: "fadd (fadd a b) c = fadd a (fadd b c)"
  by (cases a; cases b; cases c) simp_all

lemma fadd_commute: "fadd a b = fadd b a"
  by (cases a; cases b) simp_all

lemma fadd_zero_right: "fadd a (Fin 0) = a"
  by (cases a) simp_all

lemma fsum_Cons: "fsum (x # xs) = fadd x (fsum xs)"
  by (simp add: fsum_def)

lemma fsum_Nil: "fsum [] = Fin 0"
  by (simp add: fsum_def)

lemma contributions_Nil: "contributions [] probs = []"
  by (simp add: contributions_def map_filter_simps)

lemma contributions_Cons:
  "contributions ((word, freq) # rest) probs =
     (case map_of probs word of
        None \<Rightarrow> contributions rest probs
      | Some p \<Rightarrow> fmul (Fin freq) (flog p) # contributions rest probs)"
  by (simp add: contributions_def map_filter_simps split: option.split)

lemma predict_loop_sums:
  "predict_loop email ws wn (a, b)
     = (fadd a (fsum (contributions email ws)), fadd b (fsum (contributions email wn)))"
proof (induction email arbitrary: a b)
  case Nil
  show ?case by (simp add: contributions_Nil fsum_Nil fadd_zero_right)
next
  case (Cons e email)
  obtain word freq where e: "e = (word, freq)" by (cases e)
  show ?case
    unfolding e
    by (simp add: Cons.IH contributions_Cons fsum_Cons fadd_assoc Let_def split: option.split)
qed

lemma predict_scores:
  "predict email ps pn ws wn = fgt (score email ps ws) (score email pn wn)"
  by (simp add: predict_def score_def predict_loop_sums)

lemma fsum_Fin: "fsum (map Fin xs) = Fin (sum_list xs)"
  by (induction xs) (simp_all add: fsum_Nil fsum_Cons)

lemma map_of_as_series: "map_of (as_series probs) word = map_option Fin (map_of probs word)"
  by (induction probs) (auto simp: as_series_def)

lemma contributions_real:
  assumes "list_all (\<lambda>e. 0 < snd e) probs"
  shows "contributions email (as_series probs)
       = map Fin (List.map_filter
           (\<lambda>(word, freq). map_option (\<lambda>p. freq * ln p) (map_of probs word)) email)"
proof (induction email)
  case Nil
  show ?case by (simp add: contributions_Nil map_filter_simps)
next
  case (Cons e email)
  obtain word freq where e: "e = (word, freq)" by (cases e)
  show ?case
  proof (cases "map_of probs word")
    case None
    then show ?thesis
      by (simp add: e contributions_Cons map_of_as_series Cons.IH map_filter_simps)
  next
    case (Some p)
    then have "(word, p) \<in> set probs" by (rule map_of_SomeD)
    with assms have "0 < p" by (auto simp: list_all_iff)
    with Some show ?thesis
      by (simp add: e contributions_Cons map_of_as_series Cons.IH map_filter_simps)
  qed
qed

lemma score_real:
  assumes "0 < prior" "list_all (\<lambda>e. 0 < snd e) probs"
  shows "score email (Fin prior) (as_series probs) = Fin (log_score email prior probs)"
  using assms(1)
  by (simp add: score_def log_score_def contributions_real [OF assms(2)] fsum_Fin)

text \<open>
  Claim C3: \<open>predict\<close> returns true exactly when the score of the spam class is greater
  than the score of the non-spam class, each score being the logarithm of the prior plus
  the sum of \<open>value * log(probability)\<close> over the entries of the row whose word is in
  that class's Series; any other entry is skipped, and \<open>predict\<close> has no failing branch.
  When the priors and the probabilities are positive reals, the scores are the real
  numbers \<open>log_score\<close> and the comparison is the comparison of reals.
\<close>

theorem predict_compares_scores:
  "predict email prior_spam prior_non_spam words_spam_prob words_non_spam_prob
     = fgt (score email prior_spam words_spam_prob) (score email prior_non_spam words_non_spam_prob)
   \<and> (0 < ps \<and> 0 < pn \<and> list_all (\<lambda>e. 0 < snd e) sp \<and> list_all (\<lambda>e. 0 < snd e) np \<longrightarrow>
        predict email (Fin ps) (Fin pn) (as_series sp) (as_series np)
          = (log_score email ps sp > log_score email pn np))
   \<and> (map_of words_spam_prob word = None \<and> map_of words_non_spam_prob word = None \<longrightarrow>
        predict ((word, freq) # email) prior_spam prior_non_spam words_spam_prob words_non_spam_prob
          = predict email prior_spam prior_non_spam words_spam_prob words_non_spam_prob)"
proof (intro conjI impI)
  show "predict email prior_spam prior_non_spam words_spam_prob words_non_spam_prob
     = fgt (score email prior_spam words_spam_prob) (score email prior_non_spam words_non_spam_prob)"
    by (rule predict_scores)
next
  assume "0 < ps \<and> 0 < pn \<and> list_all (\<lambda>e. 0 < snd e) sp \<and> list_all (\<lambda>e. 0 < snd e) np"
  then show "predict email (Fin ps) (Fin pn) (as_series sp) (as_series np)
          = (log_score email ps sp > log_score email pn np)"
    by (simp add: predict_scores score_real)
next
  assume "map_of words_spam_prob word = None \<and> map_of words_non_spam_prob word = None"
  then show "predict ((word, freq) # email) prior_spam prior_non_spam words_spam_prob words_non_spam_prob
          = predict email prior_spam prior_non_spam words_spam_prob words_non_spam_prob"
    by (simp add: predict_def)
qed

theorem predict_compares_scores_witness:
  "(0::real) < 1 \<and> (0::real) < 1
   \<and> list_all (\<lambda>e. 0 < snd e) [(''a'', 1::real)]
   \<and> list_all (\<lambda>e. 0 < snd e) [(''a'', 1 / 2::real)]
   \<and> log_score [(''a'', 2), (''zzz'', 5)] 1 [(''a'', 1)] = 0
   \<and> log_score [(''a'', 2), (''zzz'', 5)] 1 [(''a'', 1 / 2)] = 2 * ln (1 / 2)
   \<and> predict [(''a'', 2), (''zzz'', 5)] (Fin 1) (Fin 1) (as_series [(''a'', 1)]) (as_series [(''a'', 1 / 2)])
   \<and> map_of (as_series [(''a'', 1)]) ''zzz'' = None
   \<and> map_of (as_series [(''a'', 1 / 2)]) ''zzz'' = None
   \<and> predict [(''zzz'', 5), (''a'', 2)] (Fin 1) (Fin 1) (as_series [(''a'', 1)]) (as_series [(''a'', 1 / 2)])
      = predict [(''a'', 2)] (Fin 1) (Fin 1) (as_series [(''a'', 1)]) (as_series [(''a'', 1 / 2)])"
proof -
  have s: "log_score [(''a'', 2), (''zzz'', 5)] 1 [(''a'', 1)] = 0"
    by (simp add: log_score_def map_filter_simps)
  have n: "log_score [(''a'', 2), (''zzz'', 5)] 1 [(''a'', 1 / 2)] = 2 * ln (1 / 2)"
    by (simp add: log_score_def map_filter_simps)
  have neg: "ln (1 / 2 :: real) < 0" by (simp add: ln_div)
  have hyp: "(0::real) < 1 \<and> (0::real) < 1 \<and> list_all (\<lambda>e. 0 < snd e) [(''a'', 1::real)]
      \<and> list_all (\<lambda>e. 0 < snd e) [(''a'', 1 / 2::real)]"
    by simp
  have m: "map_of (as_series [(''a'', 1)]) ''zzz'' = None"
       "map_of (as_series [(''a'', 1 / 2)]) ''zzz'' = None"
    by (simp_all add: as_series_def)
  have "predict [(''a'', 2), (''zzz'', 5)] (Fin 1) (Fin 1) (as_series [(''a'', 1)]) (as_series [(''a'', 1 / 2)])
      = (log_score [(''a'', 2), (''zzz'', 5)] 1 [(''a'', 1)] > log_score [(''a'', 2), (''zzz'', 5)] 1 [(''a'', 1 / 2)])"
    using predict_compares_scores [of "[(''a'', 2), (''zzz'', 5)]" "Fin 1" "Fin 1"
        "as_series [(''a'', 1)]" "as_series [(''a'', 1 / 2)]" 1 1 "[(''a'', 1)]" "[(''a'', 1 / 2)]"
        "''zzz''" 5] hyp
    by blast
  then have p: "predict [(''a'', 2), (''zzz'', 5)] (Fin 1) (Fin 1) (as_series [(''a'', 1)]) (as_series [(''a'', 1 / 2)])"
    using neg by (simp only: s n)
  have q: "predict [(''zzz'', 5), (''a'', 2)] (Fin 1) (Fin 1) (as_series [(''a'', 1)]) (as_series [(''a'', 1 / 2)])
      = predict [(''a'', 2)] (Fin 1) (Fin 1) (as_series [(''a'', 1)]) (as_series [(''a'', 1 / 2)])"
    using predict_compares_scores [of "[(''a'', 2)]" "Fin 1" "Fin 1" "as_series [(''a'', 1)]"
        "as_series [(''a'', 1 / 2)]" 1 1 "[]" "[]" "''zzz''" 5] m
    by blast
  from s n p q m hyp show ?thesis by blast
qed

section \<open>Properties of evaluation\<close>

lemma drop_label_has:
  "has_label row \<Longrightarrow> drop_label row = Inr (filter (\<lambda>kv. fst kv \<noteq> ''spam'') row)"
  by (simp add: drop_label_def has_label_def)

lemma get_label_has:
  assumes "has_label row"
  shows "get_label row = Inr (label_of row)"
proof -
  from assms have "map_of row ''spam'' \<noteq> None"
    by (simp add: has_label_def map_of_eq_None_iff)
  then obtain v where "map_of row ''spam'' = Some v" by auto
  then show ?thesis by (simp add: get_label_def label_of_def value_of_def)
qed

lemma test_step_has:
  assumes "has_label row"
  shows "test_step ps pn ws wn row st =
    Inr (st\<lparr>correct := correct st + (if as_label (prediction_of ps pn ws wn row) = label_of row then 1 else 0),
           false_positive := false_positive st
              + (if prediction_of ps pn ws wn row \<and> label_of row \<noteq> 1 then 1 else 0),
           true_positive := true_positive st
              + (if prediction_of ps pn ws wn row \<and> label_of row = 1 then 1 else 0),
           predictions := predictions st @ [prediction_of ps pn ws wn row],
           spam_labels := spam_labels st @ [label_of row]\<rparr>)"
  by (simp add: test_step_def drop_label_has [OF assms] get_label_has [OF assms]
      prediction_of_def [symmetric] as_label_def Let_def)

lemma test_loop_counts:
  "list_all has_label rows \<Longrightarrow>
   test_loop ps pn ws wn rows st =
    Inr (st\<lparr>correct := correct st
              + length (filter (\<lambda>r. as_label (prediction_of ps pn ws wn r) = label_of r) rows),
           false_positive := false_positive st
              + length (filter (\<lambda>r. prediction_of ps pn ws wn r \<and> label_of r \<noteq> 1) rows),
           true_positive := true_positive st
              + length (filter (\<lambda>r. prediction_of ps pn ws wn r \<and> label_of r = 1) rows),
           predictions := predictions st @ map (prediction_of ps pn ws wn) rows,
           spam_labels := spam_labels st @ map label_of rows\<rparr>)"
proof (induction rows arbitrary: st)
  case Nil
  show ?case by simp
next
  case (Cons row rows)
  then have h: "has_label row" and hs: "list_all has_label rows" by simp_all
  show ?case
    by (simp add: test_step_has [OF h] Cons.IH [OF hs])
qed

lemma false_positive_binary:
  assumes "list_all binary_label rows"
  shows "filter (\<lambda>r. p r \<and> label_of r \<noteq> 1) rows = filter (\<lambda>r. p r \<and> label_of r = 0) rows"
  using assms by (intro filter_cong) (auto simp: list_all_iff binary_label_def)

lemma test_by_counts:
  assumes labelled: "list_all has_label (iterrows test_data)"
    and binary: "list_all binary_label (iterrows test_data)"
    and nonempty: "0 < df_len test_data"
    and auc: "roc_auc_score (map label_of (iterrows test_data))
                (map (prediction_of ps pn ws wn) (iterrows test_data)) = Inr a"
  shows "test roc_auc_score test_data ps pn ws wn =
    Inr (real (length (filter (\<lambda>r. as_label (prediction_of ps pn ws wn r) = label_of r) (iterrows test_data)))
           / real (length (iterrows test_data)),
         real (length (filter (\<lambda>r. prediction_of ps pn ws wn r \<and> label_of r = 0) (iterrows test_data)))
           / real (length (iterrows test_data)),
         real (length (filter (\<lambda>r. prediction_of ps pn ws wn r \<and> label_of r = 1) (iterrows test_data)))
           / real (length (iterrows test_data)),
         a)"
proof -
  have n: "length (iterrows test_data) = df_len test_data" by (simp add: iterrows_def)
  show ?thesis
    unfolding test_def Let_def test_loop_counts [OF labelled] false_positive_binary [OF binary] n
    using nonempty auc by simp
qed

text \<open>
  Claim C4: for a test set with at least one row, every row labelled 0 or 1, and a call
  of \<open>roc_auc_score\<close> that returns, \<open>test\<close> returns \<open>correct / total\<close>,
  \<open>false_positive / total\<close> and \<open>true_positive / total\<close>, where \<open>total\<close> is the number of
  rows, \<open>correct\<close> counts the rows whose prediction equals the label, \<open>true_positive\<close>
  the rows predicted spam with label 1 and \<open>false_positive\<close> the rows predicted spam
  with label 0: both rates are over all the rows.
\<close>

theorem test_metrics:
  assumes labelled: "list_all has_label (iterrows test_data)"
    and binary: "list_all binary_label (iterrows test_data)"
    and nonempty: "0 < df_len test_data"
    and auc: "roc_auc_score (map label_of (iterrows test_data))
                (map (prediction_of ps pn ws wn) (iterrows test_data)) = Inr a"
  shows "test roc_auc_score test_data ps pn ws wn =
    Inr (real (length (filter (\<lambda>r. as_label (prediction_of ps pn ws wn r) = label_of r) (iterrows test_data)))
           / real (length (iterrows test_data)),
         real (length (filter (\<lambda>r. prediction_of ps pn ws wn r \<and> label_of r = 0) (iterrows test_data)))
           / real (length (iterrows test_data)),
         real (length (filter (\<lambda>r. prediction_of ps pn ws wn r \<and> label_of r = 1) (iterrows test_data)))
           / real (length (iterrows test_data)),
         a)"
  using assms by (rule test_by_counts)

lemma toy_predictions:
  "prediction_of (Fin 1) (Fin 1) (as_series [(''a'', 1)]) (as_series [(''a'', 1 / 2)]) [(''a'', v), (''spam'', l)]
     = (0 < v)"
proof -
  have "ln (1 / 2 :: real) < 0" by (simp add: ln_div)
  then have "(v * ln (1 / 2) < 0) = (0 < v)"
    by (simp add: mult_less_0_iff del: ln_inverse)
  then show ?thesis
    by (simp add: prediction_of_def predict_scores score_real log_score_def map_filter_simps)
qed

theorem test_metrics_witness:
  "list_all has_label (iterrows toy_test)
   \<and> list_all binary_label (iterrows toy_test)
   \<and> 0 < df_len toy_test
   \<and> toy_auc (map label_of (iterrows toy_test))
        (map (prediction_of (Fin 1) (Fin 1) (as_series [(''a'', 1)]) (as_series [(''a'', 1 / 2)]))
           (iterrows toy_test)) = Inr (Fin (3 / 4))
   \<and> test toy_auc toy_test (Fin 1) (Fin 1) (as_series [(''a'', 1)]) (as_series [(''a'', 1 / 2)])
       = Inr (2 / 3, 1 / 3, 1 / 3, Fin (3 / 4))"
proof -
  have rows: "iterrows toy_test
      = [[(''a'', 2), (''spam'', 1)], [(''a'', 0), (''spam'', 0)], [(''a'', 1), (''spam'', 0)]]"
    by (simp add: toy_test_def iterrows_def row_at_def df_len_def upt_rec)
  have l: "list_all has_label (iterrows toy_test)" by (simp add: rows has_label_def)
  have b: "list_all binary_label (iterrows toy_test)"
    by (simp add: rows binary_label_def label_of_def value_of_def)
  have n: "0 < df_len toy_test" by (simp add: toy_test_def df_len_def)
  have a: "toy_auc (map label_of (iterrows toy_test))
        (map (prediction_of (Fin 1) (Fin 1) (as_series [(''a'', 1)]) (as_series [(''a'', 1 / 2)]))
           (iterrows toy_test)) = Inr (Fin (3 / 4))"
    by (simp add: toy_auc_def)
  have "test toy_auc toy_test (Fin 1) (Fin 1) (as_series [(''a'', 1)]) (as_series [(''a'', 1 / 2)])
       = Inr (2 / 3, 1 / 3, 1 / 3, Fin (3 / 4))"
    unfolding test_metrics [where roc_auc_score = toy_auc and test_data = toy_test, OF l b n a]
    by (simp add: rows toy_predictions label_of_def value_of_def as_label_def)
  with l b n a show ?thesis by blast
qed

section \<open>Properties of the correlation filter\<close>

lemma inner_fold:
  "fold (\<lambda>j acc. if P j then insert x acc else acc) js acc
     = (if list_ex P js then insert x acc else acc)"
  by (induction js arbitrary: acc) auto

lemma outer_fold:
  "fold (\<lambda>i acc. if Q i then insert (nm i) acc else acc) ixs acc
     = acc \<union> {nm i | i. i \<in> set ixs \<and> Q i}"
  by (induction ixs arbitrary: acc) auto

lemma correlated_features_marked:
  "correlated_features data t = {fst (data ! i) | i. i < length data \<and> marked data t i}"
proof -
  have "correlated_features data t
      = fold (\<lambda>i acc. if marked data t i then insert (fst (data ! i)) acc else acc)
          [0..<length data] {}"
    by (simp add: correlated_features_def inner_fold marked_def matrix_def exceeds_def)
  then show ?thesis by (simp add: outer_fold)
qed

lemma filter_by_index:
  "filter P xs = map ((!) xs) (filter (\<lambda>i. P (xs ! i)) [0..<length xs])"
proof -
  have "filter P (map ((!) xs) [0..<length xs]) = map ((!) xs) (filter (\<lambda>i. P (xs ! i)) [0..<length xs])"
    by (simp only: filter_map comp_def)
  then show ?thesis by (simp only: map_nth)
qed

lemma filter_nth_pair:
  assumes "j' < i'" "i' < length (filter P xs)"
  shows "\<exists>i j. j < i \<and> i < length xs \<and> xs ! i = filter P xs ! i' \<and> xs ! j = filter P xs ! j'"
proof -
  let ?is = "filter (\<lambda>i. P (xs ! i)) [0..<length xs]"
  have f: "filter P xs = map ((!) xs) ?is" by (rule filter_by_index)
  then have len: "length (filter P xs) = length ?is" by (metis length_map)
  have sorted: "sorted_wrt (<) ?is" by (intro sorted_wrt_filter sorted_wrt_upt)
  from assms len have i': "i' < length ?is" and j': "j' < length ?is" by simp_all
  from sorted assms(1) i' have lt: "?is ! j' < ?is ! i'" by (rule sorted_wrt_nth_less)
  from i' have "?is ! i' \<in> set ?is" by (rule nth_mem)
  then have bound: "?is ! i' < length xs" by simp
  have "filter P xs ! i' = xs ! (?is ! i')" using i' by (subst f) simp
  moreover have "filter P xs ! j' = xs ! (?is ! j')" using j' by (subst f) simp
  ultimately show ?thesis using lt bound by metis
qed

lemma marked_iff:
  "marked data t i \<longleftrightarrow> (\<exists>j<i. exceeds t (data ! i) (data ! j))"
  by (auto simp: marked_def list_ex_iff)

lemma no_marks_after_filter:
  "correlated_features (remove_correlated data t) t = {}"
proof -
  let ?R = "remove_correlated data t"
  have no_mark: "\<not> marked ?R t i'" if i': "i' < length ?R" for i'
  proof
    assume "marked ?R t i'"
    then obtain j' where j': "j' < i'" and ex: "exceeds t (?R ! i') (?R ! j')"
      by (auto simp: marked_iff)
    from j' i' obtain i j where ij: "j < i" "i < length data"
        and eq: "data ! i = ?R ! i'" "data ! j = ?R ! j'"
      unfolding remove_correlated_def using filter_nth_pair [of j' i'] by blast
    from ex eq ij(1) have "marked data t i" by (auto simp: marked_iff)
    with ij(2) have "fst (data ! i) \<in> correlated_features data t"
      by (auto simp: correlated_features_marked)
    moreover from i' have "?R ! i' \<in> set ?R" by (rule nth_mem)
    then have "fst (?R ! i') \<notin> correlated_features data t"
      by (simp add: remove_correlated_def)
    ultimately show False using eq(1) by simp
  qed
  then show ?thesis
    by (auto simp: correlated_features_marked)
qed

lemma remove_correlated_fixpoint:
  "remove_correlated (remove_correlated data t) t = remove_correlated data t"
  by (simp add: remove_correlated_def [of "remove_correlated data t"] no_marks_after_filter)

lemma remove_correlated_by_index:
  assumes "distinct (map fst data)"
  shows "remove_correlated data t
       = map ((!) data) (filter (\<lambda>i. \<not> marked data t i) [0..<length data])"
proof -
  have "(fst (data ! k) \<notin> correlated_features data t) = (\<not> marked data t k)"
    if k: "k < length data" for k
  proof -
    have "(\<exists>i. fst (data ! k) = fst (data ! i) \<and> i < length data \<and> marked data t i)
        = marked data t k"
    proof
      assume "\<exists>i. fst (data ! k) = fst (data ! i) \<and> i < length data \<and> marked data t i"
      then obtain i where i: "fst (data ! k) = fst (data ! i)" "i < length data" "marked data t i"
        by blast
      from i(1,2) k have "map fst data ! k = map fst data ! i" by simp
      moreover have "k < length (map fst data)" "i < length (map fst data)"
        using k i(2) by simp_all
      ultimately have "k = i" using assms nth_eq_iff_index_eq by blast
      with i(3) show "marked data t k" by simp
    next
      assume "marked data t k"
      with k show "\<exists>i. fst (data ! k) = fst (data ! i) \<and> i < length data \<and> marked data t i"
        by blast
    qed
    then show ?thesis by (simp add: correlated_features_marked)
  qed
  then have "filter (\<lambda>i. fst (data ! i) \<notin> correlated_features data t) [0..<length data]
      = filter (\<lambda>i. \<not> marked data t i) [0..<length data]"
    by (intro filter_cong) simp_all
  then show ?thesis
    unfolding remove_correlated_def
    by (subst filter_by_index) simp
qed


lemma name_marked:
  assumes "distinct (map fst data)" and k: "k < length data"
  shows "(fst (data ! k) \<in> correlated_features data t) = marked data t k"
proof
  assume "fst (data ! k) \<in> correlated_features data t"
  then obtain i where i: "fst (data ! k) = fst (data ! i)" "i < length data" "marked data t i"
    by (auto simp: correlated_features_marked)
  from i(1,2) k have "map fst data ! k = map fst data ! i" by simp
  moreover have "k < length (map fst data)" "i < length (map fst data)"
    using k i(2) by simp_all
  ultimately have "k = i" using assms(1) nth_eq_iff_index_eq by blast
  with i(3) show "marked data t k" by simp
next
  assume "marked data t k"
  with k show "fst (data ! k) \<in> correlated_features data t"
    by (auto simp: correlated_features_marked)
qed

lemma kept_iff:
  assumes "distinct (map fst data)" and k: "k < length data"
  shows "(data ! k \<in> set (remove_correlated data t)) = (\<not> marked data t k)"
  using k by (simp add: remove_correlated_def name_marked [OF assms])

lemma filter_not_last_index: "filter (\<lambda>i. i \<noteq> n - 1) [0..<n] = [0..<n - 1]"
proof (cases n)
  case 0
  then show ?thesis by simp
next
  case (Suc m)
  have "filter (\<lambda>i. i \<noteq> m) [0..<m] = [0..<m]"
    by (simp add: filter_id_conv)
  with Suc show ?thesis by simp
qed

lemma features_kept:
  assumes d: "distinct (map fst data)"
  shows "filter (\<lambda>c. fst c \<noteq> fst (last data)) (remove_correlated data t)
       = map ((!) data) (filter (\<lambda>i. \<not> marked data t i) [0..<length data - 1])"
proof -
  let ?n = "length data"
  let ?Q = "\<lambda>i. \<not> marked data t i"
  have not_last: "(fst (data ! i) \<noteq> fst (last data)) = (i \<noteq> ?n - 1)" if i: "i < ?n" for i
  proof -
    from i have ne: "data \<noteq> []" by auto
    then have l: "last data = data ! (?n - 1)" by (rule last_conv_nth)
    have "(map fst data ! i = map fst data ! (?n - 1)) = (i = ?n - 1)"
      using d i by (intro nth_eq_iff_index_eq) simp_all
    with i show ?thesis by (simp add: l)
  qed
  have "filter (\<lambda>c. fst c \<noteq> fst (last data)) (remove_correlated data t)
      = map ((!) data) (filter (\<lambda>i. fst (data ! i) \<noteq> fst (last data)) (filter ?Q [0..<?n]))"
    by (simp only: remove_correlated_by_index [OF d] filter_map comp_def)
  also have "filter (\<lambda>i. fst (data ! i) \<noteq> fst (last data)) (filter ?Q [0..<?n])
      = filter (\<lambda>i. i \<noteq> ?n - 1) (filter ?Q [0..<?n])"
    using not_last by (intro filter_cong) simp_all
  also have "\<dots> = filter ?Q (filter (\<lambda>i. i \<noteq> ?n - 1) [0..<?n])"
    by (simp add: conj_commute)
  also have "\<dots> = filter ?Q [0..<?n - 1]"
    by (simp only: filter_not_last_index)
  finally show ?thesis .
qed

subsection \<open>The correlation of two columns\<close>








subsection \<open>The filter on concrete tables\<close>

lemma upt_2: "[0..<2] = [0, 1]"
  by (simp add: upt_rec)


lemma leaky_exceeds: "exceeds (608 / 1000) (''spam'', [0, 1]) (''a'', [0, 2])"
  by (simp add: exceeds_def pearson_def mean_def)

lemma leaky_filtered: "remove_correlated leaky_data (608 / 1000) = [(''a'', [0, 2])]"
proof -
  have d: "distinct (map fst leaky_data)" by (simp add: leaky_data_def)
  have m0: "\<not> marked leaky_data (608 / 1000) 0" by (simp add: marked_def)
  have m1: "marked leaky_data (608 / 1000) 1"
    using leaky_exceeds by (simp add: marked_def leaky_data_def)
  have l: "length leaky_data = 2" by (simp add: leaky_data_def)
  show ?thesis
    unfolding remove_correlated_by_index [OF d] l upt_2
    using m0 m1 by (simp add: leaky_data_def)
qed

text \<open>
  Claim C9: filtering a filtered table again, with the same threshold, marks no column
  and returns the table unchanged.
\<close>

theorem filter_idempotent:
  "correlated_features (remove_correlated data t) t = {}
   \<and> remove_correlated (remove_correlated data t) t = remove_correlated data t"
  by (simp add: no_marks_after_filter remove_correlated_fixpoint)

text \<open>
  Claim C8: the correlation matrix covers every column, the label included. The label
  is the last column, so it never decides whether a feature is removed: the features
  that remain are the same whatever the label column holds. The label itself is kept
  exactly when its absolute correlation with no feature exceeds the threshold. For
  \<open>leaky_data\<close>, whose label is perfectly correlated with its feature, the filter at
  threshold 0.608 removes the label column: the result has no column \<open>spam\<close>, and
  \<open>train\<close> on it raises \<open>KeyError\<close>.
\<close>

theorem label_is_filtered:
  "(distinct (map fst (feats @ [(''spam'', l1)])) \<longrightarrow>
      filter (\<lambda>c. fst c \<noteq> ''spam'') (remove_correlated (feats @ [(''spam'', l1)]) t)
        = filter (\<lambda>c. fst c \<noteq> ''spam'') (remove_correlated (feats @ [(''spam'', l2)]) t))
   \<and> (distinct (map fst data) \<and> data \<noteq> [] \<longrightarrow>
        (last data \<in> set (remove_correlated data t))
          = (\<not> list_ex (\<lambda>j. exceeds t (last data) (data ! j)) [0..<length data - 1]))
   \<and> exceeds (608 / 1000) (leaky_data ! 1) (leaky_data ! 0)
   \<and> remove_correlated leaky_data (608 / 1000) = [(''a'', [0, 2])]
   \<and> get_column (remove_correlated leaky_data (608 / 1000)) ''spam'' = Inl KeyError
   \<and> train (remove_correlated leaky_data (608 / 1000)) (9 / 100) = Inl KeyError"
proof (intro conjI impI)
  assume d1: "distinct (map fst (feats @ [(''spam'', l1)]))"
  then have d2: "distinct (map fst (feats @ [(''spam'', l2)]))" by simp
  have feats: "filter (\<lambda>c. fst c \<noteq> ''spam'') (remove_correlated (feats @ [(''spam'', l)]) t)
      = map ((!) feats) (filter (\<lambda>i. \<not> marked feats t i) [0..<length feats])"
    if d: "distinct (map fst (feats @ [(''spam'', l)]))" for l
  proof -
    let ?data = "feats @ [(''spam'', l)]"
    have m: "marked ?data t i = marked feats t i" if "i < length feats" for i
      using that by (simp add: marked_def list_ex_iff nth_append)
    have idx: "filter (\<lambda>i. \<not> marked ?data t i) [0..<length feats]
        = filter (\<lambda>i. \<not> marked feats t i) [0..<length feats]"
      using m by (intro filter_cong) simp_all
    have "filter (\<lambda>c. fst c \<noteq> ''spam'') (remove_correlated ?data t)
        = map ((!) ?data) (filter (\<lambda>i. \<not> marked ?data t i) [0..<length feats])"
      using features_kept [OF d, of t] by simp
    also have "\<dots> = map ((!) ?data) (filter (\<lambda>i. \<not> marked feats t i) [0..<length feats])"
      by (simp only: idx)
    also have "\<dots> = map ((!) feats) (filter (\<lambda>i. \<not> marked feats t i) [0..<length feats])"
      by (intro map_cong) (simp_all add: nth_append)
    finally show ?thesis .
  qed
  show "filter (\<lambda>c. fst c \<noteq> ''spam'') (remove_correlated (feats @ [(''spam'', l1)]) t)
      = filter (\<lambda>c. fst c \<noteq> ''spam'') (remove_correlated (feats @ [(''spam'', l2)]) t)"
    by (simp only: feats [OF d1] feats [OF d2])
next
  assume "distinct (map fst data) \<and> data \<noteq> []"
  then have d: "distinct (map fst data)" and ne: "data \<noteq> []" by simp_all
  from ne have k: "length data - 1 < length data" by simp
  from ne have l: "last data = data ! (length data - 1)" by (rule last_conv_nth)
  show "(last data \<in> set (remove_correlated data t))
      = (\<not> list_ex (\<lambda>j. exceeds t (last data) (data ! j)) [0..<length data - 1])"
    using kept_iff [OF d k, of t] by (simp add: l marked_def)
next
  show "exceeds (608 / 1000) (leaky_data ! 1) (leaky_data ! 0)"
    using leaky_exceeds by (simp add: leaky_data_def)
next
  show "remove_correlated leaky_data (608 / 1000) = [(''a'', [0, 2])]"
    by (rule leaky_filtered)
next
  show "get_column (remove_correlated leaky_data (608 / 1000)) ''spam'' = Inl KeyError"
    unfolding leaky_filtered by (simp add: get_column_def)
next
  show "train (remove_correlated leaky_data (608 / 1000)) (9 / 100) = Inl KeyError"
    unfolding leaky_filtered by (simp add: get_column_def train_def)
qed

theorem label_is_filtered_witness:
  "distinct (map fst ([(''a'', [0, 2])] @ [(''spam'', [0, 1])] :: dataframe))
   \<and> filter (\<lambda>c. fst c \<noteq> ''spam'') (remove_correlated ([(''a'', [0, 2])] @ [(''spam'', [0, 1])]) (608 / 1000))
      = filter (\<lambda>c. fst c \<noteq> ''spam'') (remove_correlated ([(''a'', [0, 2])] @ [(''spam'', [1, 1])]) (608 / 1000))
   \<and> distinct (map fst leaky_data) \<and> leaky_data \<noteq> []
   \<and> list_ex (\<lambda>j. exceeds (608 / 1000) (last leaky_data) (leaky_data ! j)) [0..<length leaky_data - 1]
   \<and> last leaky_data \<notin> set (remove_correlated leaky_data (608 / 1000))"
proof -
  have d1: "distinct (map fst ([(''a'', [0, 2::real])] @ [(''spam'', [0, 1::real])]))" by simp
  have d2: "distinct (map fst leaky_data) \<and> leaky_data \<noteq> []" by (simp add: leaky_data_def)
  have ex: "list_ex (\<lambda>j. exceeds (608 / 1000) (last leaky_data) (leaky_data ! j)) [0..<length leaky_data - 1]"
    using leaky_exceeds by (simp add: leaky_data_def)
  note t = label_is_filtered [of "[(''a'', [0, 2])]" "[0, 1]" "608 / 1000" "[1, 1]" leaky_data]
  from t d1 have 1: "filter (\<lambda>c. fst c \<noteq> ''spam'') (remove_correlated ([(''a'', [0, 2])] @ [(''spam'', [0, 1])]) (608 / 1000))
      = filter (\<lambda>c. fst c \<noteq> ''spam'') (remove_correlated ([(''a'', [0, 2])] @ [(''spam'', [1, 1])]) (608 / 1000))"
    by blast
  from t d2 ex have 2: "last leaky_data \<notin> set (remove_correlated leaky_data (608 / 1000))"
    by blast
  from d1 d2 ex 1 2 show ?thesis by blast
qed




section \<open>Errors in the driver\<close>

lemma train_empty:
  assumes "map_of fold_i ''spam'' = Some labels" "df_len fold_i = 0"
  shows "train fold_i \<alpha> = Inl ZeroDivisionError"
  using assms by (simp add: train_def get_column_def)

lemma run_folds_abort:
  "run_folds auc \<alpha> testing fs = (rs, Some e) \<Longrightarrow> run_folds auc \<alpha> testing (fs @ rest) = (rs, Some e)"
proof (induction fs arbitrary: rs)
  case Nil
  then show ?case by simp
next
  case (Cons f fs)
  show ?case
  proof (cases "train f \<alpha>")
    case (Inl e')
    with Cons.prems show ?thesis by simp
  next
    case (Inr mdl)
    obtain ps pn ws wn where mdl: "mdl = (ps, pn, ws, wn)" by (cases mdl)
    show ?thesis
    proof (cases "test auc testing ps pn ws wn")
      case (Inl e')
      with Inr mdl Cons.prems show ?thesis by simp
    next
      case r: (Inr r)
      obtain rs' err where tl: "run_folds auc \<alpha> testing fs = (rs', err)"
        by (cases "run_folds auc \<alpha> testing fs")
      with Inr mdl r Cons.prems have "err = Some e" and rs: "rs = r # rs'" by simp_all
      with tl have "run_folds auc \<alpha> testing (fs @ rest) = (rs', Some e)"
        using Cons.IH by simp
      with Inr mdl r rs show ?thesis by simp
    qed
  qed
qed

lemma one_class_priors:
  assumes wf: "wf_df fold_i" and last: "fold_i \<noteq> [] \<and> fst (last fold_i) = ''spam''"
    and n: "0 < df_len fold_i" and all: "list_all (\<lambda>v. v = 1) (snd (last fold_i))"
  shows "\<exists>ws wn. train fold_i \<alpha> = Inr (Fin 1, Fin 0, ws, wn)"
proof -
  note lab = label_column [OF wf last]
  have len: "length (snd (last fold_i)) = df_len fold_i" using wf lab by (rule wf_df_column_length)
  from all have "filter (\<lambda>v. v = 1) (snd (last fold_i)) = snd (last fold_i)"
    by (simp add: list_all_iff filter_id_conv)
  then have c1: "length (filter (\<lambda>v. v = 1) (snd (last fold_i))) = df_len fold_i"
    using len by simp
  from all have c0: "filter (\<lambda>v. v = 0) (snd (last fold_i)) = []"
    by (auto simp: list_all_iff filter_empty_conv)
  from n have n0: "df_len fold_i \<noteq> 0" by simp
  show ?thesis
    unfolding train_columns [OF wf lab n0] c1 c0 using n by simp
qed

lemma zero_prior_predicts_spam:
  assumes "0 < ps" "list_all (\<lambda>e. 0 < snd e) sp" "list_all (\<lambda>e. 0 < snd e) np"
  shows "predict email (Fin ps) (Fin 0) (as_series sp) (as_series np)"
proof -
  have "score email (Fin 0) (as_series np) = NInf"
    by (simp add: score_def contributions_real [OF assms(3)] fsum_Fin)
  then show ?thesis
    by (simp add: predict_scores score_real [OF assms(1,2)])
qed


lemma one_class_priors_non_spam:
  assumes wf: "wf_df fold_i" and last: "fold_i \<noteq> [] \<and> fst (last fold_i) = ''spam''"
    and n: "0 < df_len fold_i" and all: "list_all (\<lambda>v. v = 0) (snd (last fold_i))"
  shows "\<exists>ws wn. train fold_i \<alpha> = Inr (Fin 0, Fin 1, ws, wn)"
proof -
  note lab = label_column [OF wf last]
  have len: "length (snd (last fold_i)) = df_len fold_i" using wf lab by (rule wf_df_column_length)
  from all have "filter (\<lambda>v. v = 0) (snd (last fold_i)) = snd (last fold_i)"
    by (simp add: list_all_iff filter_id_conv)
  then have c0: "length (filter (\<lambda>v. v = 0) (snd (last fold_i))) = df_len fold_i"
    using len by simp
  from all have c1: "filter (\<lambda>v. v = 1) (snd (last fold_i)) = []"
    by (auto simp: list_all_iff filter_empty_conv)
  from n have n0: "df_len fold_i \<noteq> 0" by simp
  show ?thesis
    unfolding train_columns [OF wf lab n0] c1 c0 using n by simp
qed

lemma zero_prior_predicts_non_spam:
  assumes "0 < pn" "list_all (\<lambda>e. 0 < snd e) sp" "list_all (\<lambda>e. 0 < snd e) np"
  shows "\<not> predict email (Fin 0) (Fin pn) (as_series sp) (as_series np)"
proof -
  have "score email (Fin 0) (as_series sp) = NInf"
    by (simp add: score_def contributions_real [OF assms(2)] fsum_Fin)
  then show ?thesis
    by (simp add: predict_scores score_real [OF assms(1,3)])
qed

text \<open>
  Claim C6, as the code behaves: \<open>train\<close> on a fold with no row raises
  \<open>ZeroDivisionError\<close>; once a fold has raised, the run is over, whatever folds
  follow; a fold with rows of one class only is not rejected: \<open>train\<close> returns the
  priors 1 and 0, and with such a model (positive probabilities) the logarithm of the zero
  prior is minus infinity, so that \<open>predict\<close> answers the class of the fold for every row.
\<close>

theorem fold_failures:
  "(map_of fold_i ''spam'' = Some labels \<and> df_len fold_i = 0 \<longrightarrow>
      train fold_i \<alpha> = Inl ZeroDivisionError)
   \<and> (run_folds roc_auc_score \<alpha> testing_data fs = (rs, Some e) \<longrightarrow>
        run_folds roc_auc_score \<alpha> testing_data (fs @ rest) = (rs, Some e))
   \<and> (wf_df fold_i \<and> (fold_i \<noteq> [] \<and> fst (last fold_i) = ''spam'') \<and> 0 < df_len fold_i
        \<and> list_all (\<lambda>v. v = 1) (snd (last fold_i)) \<longrightarrow>
        (\<exists>ws wn. train fold_i \<alpha> = Inr (Fin 1, Fin 0, ws, wn)))
   \<and> (wf_df fold_i \<and> (fold_i \<noteq> [] \<and> fst (last fold_i) = ''spam'') \<and> 0 < df_len fold_i
        \<and> list_all (\<lambda>v. v = 0) (snd (last fold_i)) \<longrightarrow>
        (\<exists>ws wn. train fold_i \<alpha> = Inr (Fin 0, Fin 1, ws, wn)))
   \<and> (0 < p \<and> list_all (\<lambda>e. 0 < snd e) sp \<and> list_all (\<lambda>e. 0 < snd e) np \<longrightarrow>
        predict email (Fin p) (Fin 0) (as_series sp) (as_series np)
        \<and> \<not> predict email (Fin 0) (Fin p) (as_series sp) (as_series np))"
proof (intro conjI impI)
  assume "map_of fold_i ''spam'' = Some labels \<and> df_len fold_i = 0"
  then show "train fold_i \<alpha> = Inl ZeroDivisionError"
    using train_empty by blast
next
  assume "run_folds roc_auc_score \<alpha> testing_data fs = (rs, Some e)"
  then show "run_folds roc_auc_score \<alpha> testing_data (fs @ rest) = (rs, Some e)"
    by (rule run_folds_abort)
next
  assume "wf_df fold_i \<and> (fold_i \<noteq> [] \<and> fst (last fold_i) = ''spam'') \<and> 0 < df_len fold_i
        \<and> list_all (\<lambda>v. v = 1) (snd (last fold_i))"
  then show "\<exists>ws wn. train fold_i \<alpha> = Inr (Fin 1, Fin 0, ws, wn)"
    using one_class_priors by blast
next
  assume "wf_df fold_i \<and> (fold_i \<noteq> [] \<and> fst (last fold_i) = ''spam'') \<and> 0 < df_len fold_i
        \<and> list_all (\<lambda>v. v = 0) (snd (last fold_i))"
  then show "\<exists>ws wn. train fold_i \<alpha> = Inr (Fin 0, Fin 1, ws, wn)"
    using one_class_priors_non_spam by blast
next
  assume h: "0 < p \<and> list_all (\<lambda>e. 0 < snd e) sp \<and> list_all (\<lambda>e. 0 < snd e) np"
  then show "predict email (Fin p) (Fin 0) (as_series sp) (as_series np)"
    using zero_prior_predicts_spam by blast
  from h show "\<not> predict email (Fin 0) (Fin p) (as_series sp) (as_series np)"
    using zero_prior_predicts_non_spam by blast
qed

lemma run_empty_fold:
  "run_folds toy_auc (9 / 100) toy_test [empty_fold] = ([], Some ZeroDivisionError)"
  by (simp add: empty_fold_def train_def get_column_def df_len_def)

theorem fold_failures_witness:
  "map_of empty_fold ''spam'' = Some [] \<and> df_len empty_fold = 0
   \<and> train empty_fold (9 / 100) = Inl ZeroDivisionError
   \<and> run_folds toy_auc (9 / 100) toy_test [empty_fold] = ([], Some ZeroDivisionError)
   \<and> run_folds toy_auc (9 / 100) toy_test ([empty_fold] @ [toy_fold]) = ([], Some ZeroDivisionError)
   \<and> wf_df spam_only \<and> spam_only \<noteq> [] \<and> fst (last spam_only) = ''spam'' \<and> 0 < df_len spam_only
   \<and> list_all (\<lambda>v. v = 1) (snd (last spam_only))
   \<and> (\<exists>ws wn. train spam_only (9 / 100) = Inr (Fin 1, Fin 0, ws, wn))
   \<and> (0::real) < 1 \<and> list_all (\<lambda>e. 0 < snd e) [(''a'', 1::real)]
   \<and> predict [(''a'', 2)] (Fin 1) (Fin 0) (as_series [(''a'', 1)]) (as_series [(''a'', 1)])"
proof -
  have e: "map_of empty_fold ''spam'' = Some [] \<and> df_len empty_fold = 0"
    by (simp add: empty_fold_def df_len_def)
  have s: "wf_df spam_only \<and> (spam_only \<noteq> [] \<and> fst (last spam_only) = ''spam'') \<and> 0 < df_len spam_only
      \<and> list_all (\<lambda>v. v = 1) (snd (last spam_only))"
    by (simp add: spam_only_def wf_df_def df_len_def)
  have p: "(0::real) < 1 \<and> list_all (\<lambda>e. 0 < snd e) [(''a'', 1::real)] \<and> list_all (\<lambda>e. 0 < snd e) [(''a'', 1::real)]"
    by simp
  note t = fold_failures [of empty_fold "[]" "9 / 100" toy_auc toy_test "[empty_fold]" "[]"
      ZeroDivisionError "[toy_fold]"]
  note u = fold_failures [of spam_only _ "9 / 100" _ _ _ _ _ _ 1 "[(''a'', 1)]" "[(''a'', 1)]" "[(''a'', 2)]"]
  from t e have 1: "train empty_fold (9 / 100) = Inl ZeroDivisionError" by blast
  from t run_empty_fold
  have 2: "run_folds toy_auc (9 / 100) toy_test ([empty_fold] @ [toy_fold]) = ([], Some ZeroDivisionError)"
    by blast
  from u s have 3: "\<exists>ws wn. train spam_only (9 / 100) = Inr (Fin 1, Fin 0, ws, wn)" by blast
  from u p have 4: "predict [(''a'', 2)] (Fin 1) (Fin 0) (as_series [(''a'', 1)]) (as_series [(''a'', 1)])"
    by blast
  from e s p 1 2 3 4 run_empty_fold show ?thesis by blast
qed

lemma train_one_spam_row:
  assumes "0 \<le> v"
  shows "train [(''a'', [v]), (''spam'', [1])] (9 / 100)
       = Inr (Fin 1, Fin 0, [(''a'', Fin 1)], [(''a'', Fin 1)])"
  using assms
  by (simp add: train_def get_column_def select_rows_def select_columns_def column_sums_def
      df_len_def fdiv_def)

lemma test_spam_only_model:
  "test toy_auc toy_test (Fin 1) (Fin 0) [(''a'', Fin 1)] [(''a'', Fin 1)]
     = Inr (1 / 3, 2 / 3, 1 / 3, Fin (3 / 4))"
proof -
  have rows: "iterrows toy_test
      = [[(''a'', 2), (''spam'', 1)], [(''a'', 0), (''spam'', 0)], [(''a'', 1), (''spam'', 0)]]"
    by (simp add: toy_test_def iterrows_def row_at_def df_len_def upt_rec)
  have l: "list_all has_label (iterrows toy_test)" by (simp add: rows has_label_def)
  have b: "list_all binary_label (iterrows toy_test)"
    by (simp add: rows binary_label_def label_of_def value_of_def)
  have n: "0 < df_len toy_test" by (simp add: toy_test_def df_len_def)
  have s: "[(''a'', Fin 1)] = as_series [(''a'', 1)]" by (simp add: as_series_def)
  have pr: "prediction_of (Fin 1) (Fin 0) [(''a'', Fin 1)] [(''a'', Fin 1)] row" for row
    unfolding prediction_of_def s by (rule zero_prior_predicts_spam) simp_all
  have a: "toy_auc (map label_of (iterrows toy_test))
        (map (prediction_of (Fin 1) (Fin 0) [(''a'', Fin 1)] [(''a'', Fin 1)]) (iterrows toy_test))
      = Inr (Fin (3 / 4))"
    by (simp add: toy_auc_def)
  show ?thesis
    unfolding test_by_counts [where roc_auc_score = toy_auc and test_data = toy_test, OF l b n a]
    by (simp add: rows pr label_of_def value_of_def as_label_def)
qed

lemma folds_five_spam:
  "folds five_spam =
     [[(''a'', [1]), (''spam'', [1])], [(''a'', [2]), (''spam'', [1])],
      [(''a'', [3]), (''spam'', [1])], [(''a'', [4]), (''spam'', [1])],
      [(''a'', [5]), (''spam'', [1])]]"
proof -
  have n: "df_len five_spam = 5" by (simp add: five_spam_def df_len_def)
  have f: "folds_loop 5 s fs td = (let fold1 = df_slice s (min (s + fs) (df_len td)) td;
        s1 = min (s + fs) (df_len td);
        s2 = min (s1 + fs) (df_len td);
        s3 = min (s2 + fs) (df_len td);
        s4 = min (s3 + fs) (df_len td);
        s5 = min (s4 + fs) (df_len td)
      in [fold1, df_slice s1 s2 td, df_slice s2 s3 td, df_slice s3 s4 td, df_slice s4 s5 td])"
    for s fs td
    by (simp add: eval_nat_numeral Let_def)
  show ?thesis
    unfolding folds_def n f Let_def
    by (simp add: five_spam_def df_slice_def slice_def)
qed

text \<open>
  Five folds of one spam row each: every fold holds one class only, \<open>train\<close> accepts
  each of them, and the driver reports all five, with no error.
\<close>

theorem one_class_fold_counterexample:
  "train spam_only (9 / 100) = Inr (Fin 1, Fin 0, [(''a'', Fin 1)], [(''a'', Fin 1)])
   \<and> map (\<lambda>f. get_column f ''spam'') (folds five_spam) = [Inr [1], Inr [1], Inr [1], Inr [1], Inr [1]]
   \<and> driver toy_auc (9 / 100) five_spam toy_test
       = ([(1 / 3, 2 / 3, 1 / 3, Fin (3 / 4)), (1 / 3, 2 / 3, 1 / 3, Fin (3 / 4)),
           (1 / 3, 2 / 3, 1 / 3, Fin (3 / 4)), (1 / 3, 2 / 3, 1 / 3, Fin (3 / 4)),
           (1 / 3, 2 / 3, 1 / 3, Fin (3 / 4))], None)"
proof -
  have 1: "train spam_only (9 / 100) = Inr (Fin 1, Fin 0, [(''a'', Fin 1)], [(''a'', Fin 1)])"
    by (simp add: spam_only_def train_def get_column_def select_rows_def select_columns_def
        column_sums_def df_len_def fdiv_def)
  have 2: "map (\<lambda>f. get_column f ''spam'') (folds five_spam) = [Inr [1], Inr [1], Inr [1], Inr [1], Inr [1]]"
    by (simp add: folds_five_spam get_column_def)
  have 3: "driver toy_auc (9 / 100) five_spam toy_test
       = ([(1 / 3, 2 / 3, 1 / 3, Fin (3 / 4)), (1 / 3, 2 / 3, 1 / 3, Fin (3 / 4)),
           (1 / 3, 2 / 3, 1 / 3, Fin (3 / 4)), (1 / 3, 2 / 3, 1 / 3, Fin (3 / 4)),
           (1 / 3, 2 / 3, 1 / 3, Fin (3 / 4))], None)"
    unfolding driver_def folds_five_spam
    by (simp add: train_one_spam_row test_spam_only_model)
  from 1 2 3 show ?thesis by blast
qed

end
